theory Spec2Isabelle
  imports Main "HOL-Library.Sublist"
begin

section \<open>house\_watch.py: the poll, extract, diff, notify cycle\<close>

text \<open>
  The development embeds \<^verbatim>\<open>src/house_watch.py\<close>. Python strings are
  \<^typ>\<open>string\<close>. What the program takes from outside the repository is a parameter:
  the library functions it calls and the state file's path are the fields of
  \<open>runtime\<close> (fixed for a process), the network, the Telegram credentials and the
  fate of the state write are the fields of \<open>world\<close> (one per cycle).
\<close>

subsection \<open>Strings\<close>

text \<open>\<^verbatim>\<open>d in s\<close> on two strings: \<open>d\<close> occurs in \<open>s\<close> as a contiguous run.\<close>

fun py_in :: "string \<Rightarrow> string \<Rightarrow> bool" where
  "py_in d [] = (d = [])"
| "py_in d (c # cs) = (prefix d (c # cs) \<or> py_in d cs)"

text \<open>
  \<^verbatim>\<open>s.split(sep)[0]\<close> for a non-empty \<open>sep\<close> (the program only uses the
  constants \<^verbatim>\<open>'#'\<close> and \<^verbatim>\<open>'?utm_'\<close>): the text before the first
  occurrence of \<open>sep\<close>, all of \<open>s\<close> when there is none.
\<close>

fun split_head :: "string \<Rightarrow> string \<Rightarrow> string" where
  "split_head sep [] = []"
| "split_head sep (c # cs) = (if prefix sep (c # cs) then [] else c # split_head sep cs)"

subsection \<open>The process and its surroundings\<close>

text \<open>
  \<open>html_unescape\<close> is \<^verbatim>\<open>html.unescape\<close>; \<open>re_findall p t\<close> is
  \<^verbatim>\<open>re.findall(p, t, flags=re.IGNORECASE)\<close> (both patterns of the program have no
  capturing group, so it returns the matched texts); \<open>url_netloc u\<close> is
  \<^verbatim>\<open>urlparse(u).netloc\<close>, \<open>None\<close> when \<^verbatim>\<open>urlparse\<close> raises;
  \<open>sha256_hex s\<close> is \<^verbatim>\<open>hashlib.sha256(s.encode("utf-8")).hexdigest()\<close>;
  \<open>STATE_FILE\<close> is the module constant of that name.
\<close>

record runtime =
  html_unescape :: "string \<Rightarrow> string"
  re_findall :: "string \<Rightarrow> string \<Rightarrow> string list"
  url_netloc :: "string \<Rightarrow> string option"
  sha256_hex :: "string \<Rightarrow> string"
  STATE_FILE :: string

text \<open>An HTTP exchange: a response with its status code and text, or an exception.\<close>

datatype response = Resp int string | Exc string

text \<open>
  Where a write of the state file can stop: at \<^verbatim>\<open>open(tmp, "w")\<close>, inside
  \<^verbatim>\<open>json.dump\<close>, or at \<^verbatim>\<open>os.replace\<close> (the temporary file is then
  complete and closed). The \<open>save_fault\<close> of a world is the place and the text of the
  exception that stops the write of that cycle, \<open>None\<close> when the write succeeds.
\<close>

datatype halt = AtOpen | DuringWrite | BeforeReplace

record world =
  http_get :: "string \<Rightarrow> nat \<Rightarrow> response"
  http_post :: "string \<Rightarrow> string \<Rightarrow> string \<Rightarrow> response"
  TELEGRAM_BOT_TOKEN :: "string option"
  TELEGRAM_CHAT_ID :: "string option"
  save_fault :: "(halt \<times> string) option"

subsection \<open>The state and its file\<close>

text \<open>
  The state is the dictionary of the state file, with the two keys the program reads;
  a key may be missing. The model takes a document that parses to have the shape the
  program writes: \<^verbatim>\<open>"seen"\<close> an array of strings, \<^verbatim>\<open>"initialized"\<close> a
  boolean.
\<close>

record state =
  initialized :: "bool option"
  seen :: "string list option"

text \<open>
  A file holds the JSON document of a state (\<open>Doc\<close>), or text that is no JSON document
  (\<open>Garbage\<close>, with the parser's message), or cannot be opened or read (\<open>Unreadable\<close>,
  with the system's message). A file system maps a path to its file.
\<close>

datatype fcontent = Doc state | Garbage string | Unreadable string

type_synonym filesystem = "string \<rightharpoonup> fcontent"

datatype fetch_error = HttpStatus int | Transport string

datatype error =
    FetchFailed string "fetch_error option"
  | UrlError string
  | OSError string

datatype tg_outcome = NoCredentials | HttpRefused int string | PostFailed string | Sent

datatype event =
    WarnState string
  | ErrorFetch string error
  | InfoCandidates string nat
  | Notify string string tg_outcome
  | DryRun string string
  | InfoDone nat
  | WarnCycle error

text \<open>\<^verbatim>\<open>state.get("initialized", False)\<close> and \<^verbatim>\<open>state.get("seen", [])\<close>.\<close>

definition get_initialized :: "state \<Rightarrow> bool" where
  "get_initialized st = (case initialized st of None \<Rightarrow> False | Some b \<Rightarrow> b)"

definition get_seen :: "state \<Rightarrow> string list" where
  "get_seen st = (case seen st of None \<Rightarrow> [] | Some ks \<Rightarrow> ks)"

text \<open>
  The body of the \<^verbatim>\<open>try\<close> of \<open>load_state\<close>: opening the state file and
  parsing it gives the state or raises.
\<close>

datatype read_exn = FileNotFoundError | OtherException string

definition read_json :: "runtime \<Rightarrow> filesystem \<Rightarrow> read_exn + state" where
  "read_json R fs =
     (case fs (STATE_FILE R) of
        None \<Rightarrow> Inl FileNotFoundError
      | Some (Doc st) \<Rightarrow> Inr st
      | Some (Garbage e) \<Rightarrow> Inl (OtherException e)
      | Some (Unreadable e) \<Rightarrow> Inl (OtherException e))"

text \<open>
  \<open>load_state\<close> returns the state and what it prints: nothing on
  \<^verbatim>\<open>FileNotFoundError\<close>, a warning on any other exception.
\<close>

definition load_state :: "runtime \<Rightarrow> filesystem \<Rightarrow> state \<times> event list" where
  "load_state R fs =
     (case read_json R fs of
        Inr st \<Rightarrow> (st, [])
      | Inl FileNotFoundError \<Rightarrow> (\<lparr>initialized = None, seen = Some []\<rparr>, [])
      | Inl (OtherException e) \<Rightarrow> (\<lparr>initialized = None, seen = Some []\<rparr>, [WarnState e]))"

text \<open>
  The three file operations of \<open>save_state\<close>. \<^verbatim>\<open>open(p, "w")\<close> creates
  \<open>p\<close> or empties it, and until the document is written in full and the file closed
  \<open>p\<close> holds a proper prefix of the document, which is no JSON document;
  \<^verbatim>\<open>os.replace(a, b)\<close> moves \<open>a\<close> over \<open>b\<close> in one step.
\<close>

definition fs_open_w :: "string \<Rightarrow> filesystem \<Rightarrow> filesystem" where
  "fs_open_w p fs = fs(p \<mapsto> Garbage ''truncated'')"

definition fs_dump :: "string \<Rightarrow> state \<Rightarrow> filesystem \<Rightarrow> filesystem" where
  "fs_dump p st fs = fs(p \<mapsto> Doc st)"

definition fs_replace :: "string \<Rightarrow> string \<Rightarrow> filesystem \<Rightarrow> filesystem" where
  "fs_replace a b fs = (fs(a := None))(b := fs a)"

definition tmp_path :: "runtime \<Rightarrow> string" where
  "tmp_path R = STATE_FILE R @ ''.tmp''"

text \<open>
  The file system left behind when \<open>save_state\<close> stops at \<open>h\<close>, by an
  exception or because the process stops there.
\<close>

definition stopped_fs :: "runtime \<Rightarrow> state \<Rightarrow> halt \<Rightarrow> filesystem \<Rightarrow> filesystem" where
  "stopped_fs R st h fs =
     (case h of
        AtOpen \<Rightarrow> fs
      | DuringWrite \<Rightarrow> fs_open_w (tmp_path R) fs
      | BeforeReplace \<Rightarrow> fs_dump (tmp_path R) st (fs_open_w (tmp_path R) fs))"

text \<open>\<open>save_state\<close>, with the exception that stops it, if one does.\<close>

definition save_state ::
  "runtime \<Rightarrow> (halt \<times> string) option \<Rightarrow> state \<Rightarrow> filesystem \<Rightarrow> error option \<times> filesystem" where
  "save_state R f st fs =
     (case f of
        Some (h, e) \<Rightarrow> (Some (OSError e), stopped_fs R st h fs)
      | None \<Rightarrow>
          (None,
           fs_replace (tmp_path R) (STATE_FILE R)
             (fs_dump (tmp_path R) st (fs_open_w (tmp_path R) fs))))"

text \<open>
  The file systems that exist while a save runs to its end: the ones it can stop in,
  in order, and the one it leaves.
\<close>

definition save_steps :: "runtime \<Rightarrow> state \<Rightarrow> filesystem \<Rightarrow> filesystem list" where
  "save_steps R st fs =
     map (\<lambda>h. stopped_fs R st h fs) [AtOpen, DuringWrite, BeforeReplace]
       @ [snd (save_state R None st fs)]"

definition sha_of :: "runtime \<Rightarrow> string \<Rightarrow> string" where
  "sha_of R s = sha256_hex R s"

subsection \<open>Fetcher\<close>

text \<open>
  The loop \<^verbatim>\<open>for i in range(retries + 1)\<close> of \<open>fetch\<close>: \<open>i\<close> is the attempt,
  \<open>n\<close> the attempts left. The pauses between attempts are not modelled.
\<close>

fun fetch_attempts ::
  "(string \<Rightarrow> nat \<Rightarrow> response) \<Rightarrow> string \<Rightarrow> nat \<Rightarrow> nat \<Rightarrow> fetch_error option \<Rightarrow> error + string" where
  "fetch_attempts get u i 0 last_err = Inl (FetchFailed u last_err)"
| "fetch_attempts get u i (Suc n) last_err =
     (case get u i of
        Resp status_code txt \<Rightarrow>
          if status_code = 200 then Inr txt
          else fetch_attempts get u (Suc i) n (Some (HttpStatus status_code))
      | Exc e \<Rightarrow> fetch_attempts get u (Suc i) n (Some (Transport e)))"

definition fetch :: "world \<Rightarrow> string \<Rightarrow> int \<Rightarrow> error + string" where
  "fetch W u retries = fetch_attempts (http_get W) u 0 (nat (retries + 1)) None"

subsection \<open>Link extractor\<close>

definition normalize_link :: "string \<Rightarrow> string" where
  "normalize_link link = split_head ''?utm_'' (split_head ''#'' link)"

text \<open>The first loop of \<open>extract_links\<close>, which fills \<^verbatim>\<open>clean\<close>.\<close>

fun clean_links :: "runtime \<Rightarrow> string \<Rightarrow> string list \<Rightarrow> string list" where
  "clean_links R domain [] = []"
| "clean_links R domain (link # links) =
     (case url_netloc R (normalize_link link) of
        None \<Rightarrow> clean_links R domain links
      | Some netloc \<Rightarrow>
          if py_in domain netloc then normalize_link link # clean_links R domain links
          else clean_links R domain links)"

text \<open>The second loop, with the local set \<^verbatim>\<open>seen\<close> as the list \<open>sn\<close>.\<close>

fun dedupe :: "string list \<Rightarrow> string list \<Rightarrow> string list" where
  "dedupe sn [] = []"
| "dedupe sn (l # ls) = (if l \<in> set sn then dedupe sn ls else l # dedupe (l # sn) ls)"

definition extract_links :: "runtime \<Rightarrow> string \<Rightarrow> string \<Rightarrow> string \<Rightarrow> string list" where
  "extract_links R html_text pat domain =
     dedupe [] (clean_links R domain (re_findall R pat (html_unescape R html_text)))"

subsection \<open>Notifier\<close>

definition telegram_notify :: "world \<Rightarrow> string \<Rightarrow> tg_outcome" where
  "telegram_notify W txt =
     (case (TELEGRAM_BOT_TOKEN W, TELEGRAM_CHAT_ID W) of
        (Some token, Some chat) \<Rightarrow>
          if token = [] \<or> chat = [] then NoCredentials
          else (case http_post W (''https://api.telegram.org/bot'' @ token @ ''/sendMessage'') chat txt of
                  Resp status_code body \<Rightarrow>
                    if status_code \<noteq> 200 then HttpRefused status_code (take 200 body) else Sent
                | Exc e \<Rightarrow> PostFailed e)
      | _ \<Rightarrow> NoCredentials)"

text \<open>The value \<open>telegram_notify\<close> returns.\<close>

definition delivered :: "tg_outcome \<Rightarrow> bool" where
  "delivered r = (r = Sent)"

subsection \<open>Cycle orchestrator\<close>

record source =
  src_name :: string
  src_url :: string
  src_pattern :: string

definition char_class :: string where
  "char_class = ''[^'' @ [CHR 0x5C] @ ''s'' @ [CHR 0x5C, CHR 0x22, CHR 0x27] @ ''>]''"

definition SOURCES :: "source list" where
  "SOURCES =
     [\<lparr>src_name = ''Idealista'',
       src_url = ''https://www.idealista.it/point/affitto-case/44.48011/11.37555/12/con-prezzo_750,pubblicato_ultime-24-ore/lista-mappa'',
       src_pattern = ''https?://www'' @ [CHR 0x5C] @ ''.idealista'' @ [CHR 0x5C] @ ''.it/'' @ char_class
          @ ''+/(?:immobile|annuncio)'' @ char_class @ ''*''\<rparr>,
      \<lparr>src_name = ''Immobiliare.it'',
       src_url = ''https://www.immobiliare.it/search-list/?idContratto=2&idCategoria=1&prezzoMassimo=750&idTipologia[0]=4&__lang=it&mapCenter=44.500995%2C11.345773&zoom=13#geohash-srbj1s0'',
       src_pattern = ''https?://www'' @ [CHR 0x5C] @ ''.immobiliare'' @ [CHR 0x5C] @ ''.it/'' @ char_class
          @ ''*/annunci'' @ char_class @ ''*''\<rparr>]"

text \<open>The text of a notification; its first four bytes are the bell sign in UTF-8.\<close>

definition message :: "string \<Rightarrow> string \<Rightarrow> string" where
  "message nm link =
     [CHR 0xF0, CHR 0x9F, CHR 0x94, CHR 0x94] @ '' Nuovo annuncio su <b>'' @ nm @ ''</b>''
       @ [CHR 0x0A] @ link"

text \<open>The variables a cycle updates, and what it has printed and sent so far.\<close>

record cycle_vars =
  total_new :: nat
  newly_seen :: "string list"
  out :: "event list"

text \<open>
  The loop \<^verbatim>\<open>for link in links\<close>. \<open>seen0\<close> is the set built from the loaded state;
  the loop reads it and never updates it.
\<close>

fun link_loop ::
  "runtime \<Rightarrow> world \<Rightarrow> bool \<Rightarrow> state \<Rightarrow> string list \<Rightarrow> string \<Rightarrow> string list \<Rightarrow> cycle_vars \<Rightarrow> cycle_vars" where
  "link_loop R W notify_first_run st seen0 nm [] v = v"
| "link_loop R W notify_first_run st seen0 nm (link # links) v =
     (if sha_of R link \<notin> set seen0 then
        link_loop R W notify_first_run st seen0 nm links
          \<lparr>total_new = total_new v + 1,
           newly_seen = newly_seen v @ [sha_of R link],
           out = out v @
             [if notify_first_run \<or> get_initialized st
              then Notify nm link (telegram_notify W (message nm link))
              else DryRun nm link]\<rparr>
      else link_loop R W notify_first_run st seen0 nm links v)"

text \<open>
  The loop \<^verbatim>\<open>for src in SOURCES\<close>. An exception of \<open>fetch\<close> is printed and the
  loop goes on; one of \<^verbatim>\<open>urlparse(url)\<close> leaves the loop, with what was done before.
\<close>

fun source_loop ::
  "runtime \<Rightarrow> world \<Rightarrow> bool \<Rightarrow> state \<Rightarrow> string list \<Rightarrow> source list \<Rightarrow> cycle_vars
     \<Rightarrow> error option \<times> cycle_vars" where
  "source_loop R W notify_first_run st seen0 [] v = (None, v)"
| "source_loop R W notify_first_run st seen0 (src # srcs) v =
     (case url_netloc R (src_url src) of
        None \<Rightarrow> (Some (UrlError (src_url src)), v)
      | Some domain \<Rightarrow>
          (case fetch W (src_url src) 2 of
             Inl e \<Rightarrow>
               source_loop R W notify_first_run st seen0 srcs
                 (v\<lparr>out := out v @ [ErrorFetch (src_name src) e]\<rparr>)
           | Inr html_text \<Rightarrow>
               source_loop R W notify_first_run st seen0 srcs
                 (link_loop R W notify_first_run st seen0 (src_name src)
                    (extract_links R html_text (src_pattern src) domain)
                    (v\<lparr>out := out v @
                       [InfoCandidates (src_name src)
                          (length (extract_links R html_text (src_pattern src) domain))]\<rparr>))))"

text \<open>
  A cycle over a list of sources. A Python set lists its elements in an order the
  language leaves open; the model lists them without repetition in the order
  \<^const>\<open>remdups\<close> gives, and nothing below depends on that order.
\<close>

definition run_cycle ::
  "runtime \<Rightarrow> source list \<Rightarrow> world \<Rightarrow> bool \<Rightarrow> filesystem
     \<Rightarrow> (error + nat) \<times> filesystem \<times> event list" where
  "run_cycle R srcs W notify_first_run fs =
     (let (st, warn) = load_state R fs;
          seen0 = remdups (get_seen st);
          (exc, v) = source_loop R W notify_first_run st seen0 srcs
                       \<lparr>total_new = 0, newly_seen = [], out = warn\<rparr>
      in case exc of
           Some e \<Rightarrow> (Inl e, fs, out v)
         | None \<Rightarrow>
             (let st1 = (if \<not> get_initialized st then st\<lparr>initialized := Some True\<rparr> else st);
                  st2 = st1\<lparr>seen := Some (remdups (seen0 @ newly_seen v))\<rparr>;
                  (res, fs') = save_state R (save_fault W) st2 fs
              in case res of
                   Some e \<Rightarrow> (Inl e, fs', out v)
                 | None \<Rightarrow> (Inr (total_new v), fs', out v @ [InfoDone (total_new v)])))"

definition run_once ::
  "runtime \<Rightarrow> world \<Rightarrow> bool \<Rightarrow> filesystem \<Rightarrow> (error + nat) \<times> filesystem \<times> event list" where
  "run_once R W notify_first_run fs = run_cycle R SOURCES W notify_first_run fs"


subsection \<open>What a cycle is observed to do\<close>

text \<open>
  \<open>cut_at_first sep s r\<close>: \<open>r\<close> is \<open>s\<close> truncated at the first occurrence of
  \<open>sep\<close>, that is the shortest text that \<open>sep\<close> follows in \<open>s\<close>, and \<open>s\<close>
  itself when \<open>sep\<close> does not occur in it.
\<close>

definition cut_at_first :: "string \<Rightarrow> string \<Rightarrow> string \<Rightarrow> bool" where
  "cut_at_first sep s r =
     (if sublist sep s
      then prefix (r @ sep) s \<and> (\<forall>p. prefix (p @ sep) s \<longrightarrow> length r \<le> length p)
      else r = s)"

text \<open>The state stored in the state file, if it holds one, and its seen set.\<close>

definition stored_state :: "runtime \<Rightarrow> filesystem \<Rightarrow> state option" where
  "stored_state R fs = (case fs (STATE_FILE R) of Some (Doc st) \<Rightarrow> Some st | _ \<Rightarrow> None)"

definition stored_seen :: "runtime \<Rightarrow> filesystem \<Rightarrow> string set" where
  "stored_seen R fs = (case stored_state R fs of None \<Rightarrow> {} | Some st \<Rightarrow> set (get_seen st))"

text \<open>The set \<^verbatim>\<open>seen\<close> a cycle builds from the state it loads.\<close>

definition loaded_seen :: "runtime \<Rightarrow> filesystem \<Rightarrow> string set" where
  "loaded_seen R fs = set (get_seen (fst (load_state R fs)))"

text \<open>
  A notification attempt is a call of \<open>telegram_notify\<close> or, in its place, a dry-run
  line. \<open>attempts\<close> keeps the attempts of an output, \<open>notifier_calls\<close> the calls of
  the Notifier alone, \<open>attempt_keys\<close> lists the fingerprints of the attempted links.
\<close>

fun is_attempt :: "event \<Rightarrow> bool" where
  "is_attempt (Notify nm link r) = True"
| "is_attempt (DryRun nm link) = True"
| "is_attempt _ = False"

fun is_notify :: "event \<Rightarrow> bool" where
  "is_notify (Notify nm link r) = True"
| "is_notify _ = False"

definition attempts :: "event list \<Rightarrow> event list" where
  "attempts evs = filter is_attempt evs"

definition notifier_calls :: "event list \<Rightarrow> event list" where
  "notifier_calls evs = filter is_notify evs"

fun attempt_keys :: "runtime \<Rightarrow> event list \<Rightarrow> string list" where
  "attempt_keys R [] = []"
| "attempt_keys R (Notify nm link r # evs) = sha_of R link # attempt_keys R evs"
| "attempt_keys R (DryRun nm link # evs) = sha_of R link # attempt_keys R evs"
| "attempt_keys R (ev # evs) = attempt_keys R evs"

text \<open>
  The candidate links of a cycle, each with the name of its source: for every source
  whose page can be fetched, in order, the links extracted from it. (As the loop does,
  the list ends at a source whose address cannot be parsed.) The previously-unseen
  ones are those whose fingerprint is not in \<open>seen0\<close>.
\<close>

fun candidates :: "runtime \<Rightarrow> world \<Rightarrow> source list \<Rightarrow> (string \<times> string) list" where
  "candidates R W [] = []"
| "candidates R W (src # srcs) =
     (case url_netloc R (src_url src) of
        None \<Rightarrow> []
      | Some domain \<Rightarrow>
          (case fetch W (src_url src) 2 of
             Inl e \<Rightarrow> []
           | Inr html_text \<Rightarrow>
               map (Pair (src_name src)) (extract_links R html_text (src_pattern src) domain))
          @ candidates R W srcs)"

definition new_items :: "runtime \<Rightarrow> world \<Rightarrow> string set \<Rightarrow> source list \<Rightarrow> (string \<times> string) list" where
  "new_items R W seen0 srcs = filter (\<lambda>x. sha_of R (snd x) \<notin> seen0) (candidates R W srcs)"

text \<open>The fingerprints of a list of links with their sources.\<close>

definition keys_of :: "runtime \<Rightarrow> (string \<times> string) list \<Rightarrow> string list" where
  "keys_of R xs = map (\<lambda>x. sha_of R (snd x)) xs"

text \<open>What the cycle does with one new link: a call of the Notifier or a dry-run line.\<close>

definition attempt_event :: "world \<Rightarrow> bool \<Rightarrow> string \<times> string \<Rightarrow> event" where
  "attempt_event W notify x =
     (if notify then Notify (fst x) (snd x) (telegram_notify W (message (fst x) (snd x)))
      else DryRun (fst x) (snd x))"

text \<open>The previously-unseen candidate links of a cycle run on the file system \<open>fs\<close>.\<close>

definition cycle_items :: "runtime \<Rightarrow> source list \<Rightarrow> world \<Rightarrow> filesystem \<Rightarrow> (string \<times> string) list" where
  "cycle_items R srcs W fs = new_items R W (loaded_seen R fs) srcs"

text \<open>A cycle completed when its last line is the closing one.\<close>

definition completed :: "event list \<Rightarrow> bool" where
  "completed evs = (\<exists>n. evs \<noteq> [] \<and> last evs = InfoDone n)"

subsection \<open>A concrete process\<close>

text \<open>
  The library functions on the texts of the examples below: \<open>example_netloc\<close>,
  \<open>example_findall\<close> and \<open>example_sha\<close> return what \<^verbatim>\<open>urlparse(u).netloc\<close>,
  \<^verbatim>\<open>re.findall\<close> and \<^verbatim>\<open>sha_of\<close> return on the addresses, pages and links
  that occur there. In \<open>example_world\<close> the first site answers at once, the second
  at the third attempt, and Telegram accepts every message.
\<close>

fun after_slashes :: "string \<Rightarrow> string" where
  "after_slashes (a # b # r) = (if a = CHR ''/'' \<and> b = CHR ''/'' then r else after_slashes (b # r))"
| "after_slashes r = []"

definition example_netloc :: "string \<Rightarrow> string option" where
  "example_netloc u =
     (let h = takeWhile (\<lambda>c. c \<notin> set ''/?#'') (after_slashes u)
      in if (CHR ''['' \<in> set h) \<noteq> (CHR '']'' \<in> set h) then None else Some h)"

definition page1 :: string where
  "page1 = ''<a href=https://www.idealista.it/it/immobile/12345/?utm_source=x#top> <a href=https://www.idealista.it/it/immobile/12345/> <a href=https://www.idealista.it/it/immobile/777/>''"

definition page2 :: string where
  "page2 = ''<a href=https://www.immobiliare.it/it/annunci/987/>''"

definition example_findall :: "string \<Rightarrow> string \<Rightarrow> string list" where
  "example_findall p t =
     (if p = src_pattern (SOURCES ! 0) \<and> t = page1 then
        [''https://www.idealista.it/it/immobile/12345/?utm_source=x#top'',
         ''https://www.idealista.it/it/immobile/12345/'',
         ''https://www.idealista.it/it/immobile/777/'']
      else if p = src_pattern (SOURCES ! 1) \<and> t = page2 then
        [''https://www.immobiliare.it/it/annunci/987/'']
      else [])"

definition example_sha :: "string \<Rightarrow> string" where
  "example_sha s =
     (if s = ''https://www.idealista.it/it/immobile/12345/''
      then ''f402d4ca58e40505e32fac37b58d0b5dac7adc4d718624f620b0324668488a92''
      else if s = ''https://www.idealista.it/it/immobile/777/''
      then ''9b5b77072af94fd003b0cfff57f6319226cc8928aca047c12f015c8670a1c179''
      else if s = ''https://www.immobiliare.it/it/annunci/987/''
      then ''a630cea4a2079b44ae005e29291f53ea71b462c71683553d7164b1572a0e8f38''
      else [])"

definition example_runtime :: runtime where
  "example_runtime =
     \<lparr>html_unescape = (\<lambda>t. t), re_findall = example_findall, url_netloc = example_netloc,
      sha256_hex = example_sha, STATE_FILE = ''seen_listings.json''\<rparr>"

definition example_world :: world where
  "example_world =
     \<lparr>http_get = (\<lambda>u i. if u = src_url (SOURCES ! 0) then Resp 200 page1
                        else if u = src_url (SOURCES ! 1) then (if i < 2 then Resp 503 [] else Resp 200 page2)
                        else Exc ''unreachable''),
      http_post = (\<lambda>api chat txt. Resp 200 ''ok''),
      TELEGRAM_BOT_TOKEN = Some ''123:abc'', TELEGRAM_CHAT_ID = Some ''42'',
      save_fault = None\<rparr>"

text \<open>
  A page with four links, as \<^verbatim>\<open>re.findall\<close> returns them for a pattern of
  listing addresses; and a state file written by an earlier cycle.
\<close>

definition example_page :: string where
  "example_page = ''<a href=https://evil.example.com/listing/1> <a href=https://notexample.com/listing/2> <a href=https://example.org/listing/3> <a href=https://[bad/listing/4>''"

definition example_matches :: "string list" where
  "example_matches =
     [''https://evil.example.com/listing/1'', ''https://notexample.com/listing/2'',
      ''https://example.org/listing/3'', ''https://[bad/listing/4'']"

definition listing_runtime :: runtime where
  "listing_runtime = example_runtime\<lparr>re_findall := (\<lambda>p t. if t = example_page then example_matches else [])\<rparr>"

definition old_state :: state where
  "old_state = \<lparr>initialized = Some True, seen = Some [''f402d4ca58e40505e32fac37b58d0b5dac7adc4d718624f620b0324668488a92'']\<rparr>"

definition old_fs :: filesystem where
  "old_fs = [''seen_listings.json'' \<mapsto> Doc old_state]"

text \<open>
  The candidate links of the two pages, their fingerprints, and the file system that a
  first cycle leaves.
\<close>

definition example_links :: "(string \<times> string) list" where
  "example_links =
     [(''Idealista'', ''https://www.idealista.it/it/immobile/12345/''),
      (''Idealista'', ''https://www.idealista.it/it/immobile/777/''),
      (''Immobiliare.it'', ''https://www.immobiliare.it/it/annunci/987/'')]"

definition example_keys :: "string list" where
  "example_keys =
     [''f402d4ca58e40505e32fac37b58d0b5dac7adc4d718624f620b0324668488a92'',
      ''9b5b77072af94fd003b0cfff57f6319226cc8928aca047c12f015c8670a1c179'',
      ''a630cea4a2079b44ae005e29291f53ea71b462c71683553d7164b1572a0e8f38'']"

definition fs_first :: filesystem where
  "fs_first = [''seen_listings.json'' \<mapsto> Doc \<lparr>initialized = Some True, seen = Some example_keys\<rparr>]"

text \<open>
  Three more worlds and a second configuration: in \<open>down_world\<close> the first site
  answers 503 at every attempt; in \<open>readonly_world\<close> the temporary file cannot be
  opened for writing; \<open>started_fs\<close> holds the state of a process that has run before
  and seen nothing; \<open>sent_events\<close> is what a cycle prints and sends when it notifies
  the three links; \<open>two_searches\<close> lists two searches on the first site, and in
  \<open>same_page_world\<close> every address answers with the first page.
\<close>

definition down_world :: world where
  "down_world = example_world\<lparr>http_get :=
     (\<lambda>u i. if u = src_url (SOURCES ! 0) then Resp 503 [] else http_get example_world u i)\<rparr>"




definition two_searches :: "source list" where
  "two_searches =
     [SOURCES ! 0,
      \<lparr>src_name = ''Idealista centro'',
       src_url = ''https://www.idealista.it/affitto-case/bologna/centro/'',
       src_pattern = src_pattern (SOURCES ! 0)\<rparr>]"

definition same_page_world :: world where
  "same_page_world = example_world\<lparr>http_get := (\<lambda>u i. Resp 200 page1)\<rparr>"

section \<open>Properties\<close>

subsection \<open>Strings, extraction and the loops\<close>

lemma py_in_sublist: "py_in d s \<longleftrightarrow> sublist d s"
  by (induction s) (auto simp: sublist_Cons_right)

lemma set_clean_links:
  "set (clean_links R d ms) =
     {normalize_link m | m. m \<in> set ms \<and> (\<exists>h. url_netloc R (normalize_link m) = Some h \<and> py_in d h)}"
  by (induction ms) (auto split: option.splits)

lemma set_dedupe: "set (dedupe sn ls) = set ls - set sn"
  by (induction sn ls rule: dedupe.induct) auto



lemma link_loop_closed:
  "link_loop R W nfr st seen0 nm links v =
     \<lparr>total_new = total_new v + length (filter (\<lambda>l. sha_of R l \<notin> set seen0) links),
      newly_seen = newly_seen v @ map (sha_of R) (filter (\<lambda>l. sha_of R l \<notin> set seen0) links),
      out = out v @ map (\<lambda>l. attempt_event W (nfr \<or> get_initialized st) (nm, l))
                      (filter (\<lambda>l. sha_of R l \<notin> set seen0) links)\<rparr>"
  by (induction links arbitrary: v) (simp_all add: attempt_event_def)

lemma is_attempt_attempt_event [simp]: "is_attempt (attempt_event W b x)"
  by (simp add: attempt_event_def)

lemma attempts_append [simp]: "attempts (xs @ ys) = attempts xs @ attempts ys"
  by (simp add: attempts_def)

lemma attempts_map_attempt_event [simp]:
  "attempts (map (attempt_event W b) xs) = map (attempt_event W b) xs"
  by (induction xs) (simp_all add: attempts_def)

lemma new_items_Nil [simp]: "new_items R W S [] = []"
  by (simp add: new_items_def)

lemma source_loop_vars:
  "source_loop R W nfr st seen0 srcs v = (exc, v') \<Longrightarrow>
     total_new v' = total_new v + length (new_items R W (set seen0) srcs)
     \<and> newly_seen v' = newly_seen v @ keys_of R (new_items R W (set seen0) srcs)
     \<and> attempts (out v') = attempts (out v)
          @ map (attempt_event W (nfr \<or> get_initialized st)) (new_items R W (set seen0) srcs)"
proof (induction srcs arbitrary: v)
  case Nil
  then show ?case by (simp add: keys_of_def)
next
  case (Cons src srcs)
  show ?case
  proof (cases "url_netloc R (src_url src)")
    case None
    with Cons.prems show ?thesis by (simp add: new_items_def keys_of_def)
  next
    case (Some d)
    show ?thesis
    proof (cases "fetch W (src_url src) 2")
      case (Inl e)
      with Some Cons.prems
      have "source_loop R W nfr st seen0 srcs (v\<lparr>out := out v @ [ErrorFetch (src_name src) e]\<rparr>) = (exc, v')"
        by simp
      from Cons.IH[OF this] Some Inl show ?thesis
        by (simp add: attempts_def new_items_def keys_of_def)
    next
      case (Inr t)
      let ?links = "extract_links R t (src_pattern src) d"
      let ?v1 = "link_loop R W nfr st seen0 (src_name src) ?links
                   (v\<lparr>out := out v @ [InfoCandidates (src_name src) (length ?links)]\<rparr>)"
      from Some Inr Cons.prems
      have "source_loop R W nfr st seen0 srcs ?v1 = (exc, v')"
        by simp
      from Cons.IH[OF this] Some Inr show ?thesis
        by (simp add: link_loop_closed comp_def attempts_def new_items_def keys_of_def filter_map)
    qed
  qed
qed

lemma source_loop_exc:
  "source_loop R W nfr st seen0 srcs v = (exc, v') \<Longrightarrow>
     (exc = None) = (\<forall>s\<in>set srcs. url_netloc R (src_url s) \<noteq> None)"
proof (induction srcs arbitrary: v)
  case Nil
  then show ?case by simp
next
  case (Cons src srcs)
  then show ?case
    by (auto split: option.splits sum.splits)
qed

lemma source_loop_logs_failure:
  "source_loop R W nfr st seen0 srcs v = (None, v') \<Longrightarrow>
     set (out v) \<subseteq> set (out v') \<and>
     (\<forall>s\<in>set srcs. \<forall>e. fetch W (src_url s) 2 = Inl e \<longrightarrow> ErrorFetch (src_name s) e \<in> set (out v'))"
proof (induction srcs arbitrary: v)
  case Nil
  then show ?case by simp
next
  case (Cons src srcs)
  show ?case
  proof (cases "url_netloc R (src_url src)")
    case None
    with Cons.prems show ?thesis by simp
  next
    case (Some d)
    show ?thesis
    proof (cases "fetch W (src_url src) 2")
      case (Inl e)
      with Some Cons.prems
      have "source_loop R W nfr st seen0 srcs (v\<lparr>out := out v @ [ErrorFetch (src_name src) e]\<rparr>) = (None, v')"
        by simp
      from Cons.IH[OF this] Some Inl show ?thesis
        by auto
    next
      case (Inr t)
      let ?links = "extract_links R t (src_pattern src) d"
      let ?v1 = "link_loop R W nfr st seen0 (src_name src) ?links
                   (v\<lparr>out := out v @ [InfoCandidates (src_name src) (length ?links)]\<rparr>)"
      from Some Inr Cons.prems
      have "source_loop R W nfr st seen0 srcs ?v1 = (None, v')"
        by simp
      from Cons.IH[OF this] Some Inr show ?thesis
        by (auto simp add: link_loop_closed)
    qed
  qed
qed

lemma tmp_path_neq [simp]: "tmp_path R \<noteq> STATE_FILE R" "STATE_FILE R \<noteq> tmp_path R"
  by (simp_all add: tmp_path_def)

lemma stopped_fs_state_file [simp]: "stopped_fs R st h fs (STATE_FILE R) = fs (STATE_FILE R)"
  by (cases h) (simp_all add: stopped_fs_def fs_open_w_def fs_dump_def)

lemma save_state_ok [simp]:
  "save_state R None st fs = (None, (fs(tmp_path R := None))(STATE_FILE R \<mapsto> Doc st))"
  by (simp add: save_state_def fs_replace_def fs_dump_def fs_open_w_def)

lemma save_state_raise [simp]:
  "save_state R (Some (h, e)) st fs = (Some (OSError e), stopped_fs R st h fs)"
  by (simp add: save_state_def)

lemma loaded_seen_stored: "loaded_seen R fs = stored_seen R fs"
  by (simp add: loaded_seen_def stored_seen_def stored_state_def load_state_def read_json_def get_seen_def
      split: option.splits fcontent.splits)

lemma stored_seen_cong: "fs' (STATE_FILE R) = fs (STATE_FILE R) \<Longrightarrow> stored_seen R fs' = stored_seen R fs"
  by (simp add: stored_seen_def stored_state_def)

lemma attempts_load_state [simp]: "attempts (snd (load_state R fs)) = []"
  by (simp add: load_state_def attempts_def split: sum.splits read_exn.splits)

lemma split_head_none: "\<not> sublist sep s \<Longrightarrow> split_head sep s = s"
  by (induction s) (auto simp: sublist_Cons_right)

lemma split_head_found: "sublist sep s \<Longrightarrow> prefix (split_head sep s @ sep) s"
  by (induction s) (auto simp: sublist_Cons_right)

lemma split_head_least: "prefix (p @ sep) s \<Longrightarrow> length (split_head sep s) \<le> length p"
proof (induction s arbitrary: p)
  case Nil
  then show ?case by simp
next
  case (Cons c cs)
  show ?case
  proof (cases p)
    case Nil
    with Cons.prems show ?thesis by simp
  next
    case (Cons a p')
    with Cons.prems have "prefix (p' @ sep) cs" by simp
    from Cons.IH[OF this] Cons show ?thesis by simp
  qed
qed

lemma split_head_cut: "cut_at_first sep s (split_head sep s)"
  unfolding cut_at_first_def
  by (simp add: split_head_none split_head_found split_head_least)

lemma set_extract_links:
  "set (extract_links R t p d) =
     {normalize_link m | m. m \<in> set (re_findall R p (html_unescape R t))
        \<and> (\<exists>h. url_netloc R (normalize_link m) = Some h \<and> py_in d h)}"
  by (simp add: extract_links_def set_dedupe set_clean_links)

subsection \<open>The cycle in closed form\<close>

lemma run_cycle_attempts:
  assumes "run_cycle R srcs W nfr fs = (r, fs', evs)"
  shows "attempts evs = map (attempt_event W (nfr \<or> get_initialized (fst (load_state R fs))))
                          (cycle_items R srcs W fs)"
proof -
  obtain st warn where ld: "load_state R fs = (st, warn)" by (cases "load_state R fs")
  obtain exc v where sl: "source_loop R W nfr st (remdups (get_seen st)) srcs
      \<lparr>total_new = 0, newly_seen = [], out = warn\<rparr> = (exc, v)"
    by (cases "source_loop R W nfr st (remdups (get_seen st)) srcs
      \<lparr>total_new = 0, newly_seen = [], out = warn\<rparr>")
  have w: "attempts warn = []" using attempts_load_state[of R fs] ld by simp
  from source_loop_vars[OF sl] w
  have a: "attempts (out v) = map (attempt_event W (nfr \<or> get_initialized st)) (cycle_items R srcs W fs)"
    by (simp add: cycle_items_def loaded_seen_def ld)
  from assms ld sl have "attempts evs = attempts (out v)"
    by (auto simp: run_cycle_def Let_def attempts_def split: option.splits prod.splits)
  with a ld show ?thesis by simp
qed

lemma run_cycle_Inr:
  assumes "run_cycle R srcs W nfr fs = (Inr n, fs', evs)"
  shows "n = length (cycle_items R srcs W fs)
       \<and> save_fault W = None
       \<and> (\<forall>s\<in>set srcs. url_netloc R (src_url s) \<noteq> None)
       \<and> completed evs
       \<and> (\<exists>st'. fs' (STATE_FILE R) = Some (Doc st') \<and> initialized st' = Some True
              \<and> seen st' = Some (remdups (remdups (get_seen (fst (load_state R fs)))
                                    @ keys_of R (cycle_items R srcs W fs))))"
proof -
  obtain st warn where ld: "load_state R fs = (st, warn)" by (cases "load_state R fs")
  obtain exc v where sl: "source_loop R W nfr st (remdups (get_seen st)) srcs
      \<lparr>total_new = 0, newly_seen = [], out = warn\<rparr> = (exc, v)"
    by (cases "source_loop R W nfr st (remdups (get_seen st)) srcs
      \<lparr>total_new = 0, newly_seen = [], out = warn\<rparr>")
  from assms ld sl have exc: "exc = None"
    by (auto simp: run_cycle_def Let_def split: option.splits prod.splits)
  from source_loop_exc[OF sl] exc have urls: "\<forall>s\<in>set srcs. url_netloc R (src_url s) \<noteq> None" by simp
  from source_loop_vars[OF sl]
  have tn: "total_new v = length (cycle_items R srcs W fs)"
    and ns: "newly_seen v = keys_of R (cycle_items R srcs W fs)"
    by (simp_all add: cycle_items_def loaded_seen_def ld)
  from assms ld sl exc have sf: "save_fault W = None"
    by (cases "save_fault W") (auto simp: run_cycle_def Let_def split: option.splits prod.splits)
  from assms ld sl exc sf tn ns urls show ?thesis
    by (auto simp: run_cycle_def Let_def completed_def get_initialized_def split: option.splits prod.splits)
qed

lemma run_cycle_Inl:
  assumes "run_cycle R srcs W nfr fs = (Inl e, fs', evs)"
  shows "fs' (STATE_FILE R) = fs (STATE_FILE R)"
proof -
  obtain st warn where ld: "load_state R fs = (st, warn)" by (cases "load_state R fs")
  obtain exc v where sl: "source_loop R W nfr st (remdups (get_seen st)) srcs
      \<lparr>total_new = 0, newly_seen = [], out = warn\<rparr> = (exc, v)"
    by (cases "source_loop R W nfr st (remdups (get_seen st)) srcs
      \<lparr>total_new = 0, newly_seen = [], out = warn\<rparr>")
  show ?thesis
  proof (cases "save_fault W")
    case None
    with assms ld sl show ?thesis
      by (auto simp: run_cycle_def Let_def split: option.splits prod.splits)
  next
    case (Some a)
    with assms ld sl show ?thesis
      by (cases a) (auto simp: run_cycle_def Let_def split: option.splits prod.splits)
  qed
qed

lemma run_cycle_total:
  assumes "save_fault W = None" "\<forall>s\<in>set srcs. url_netloc R (src_url s) \<noteq> None"
  shows "\<exists>fs' evs. run_cycle R srcs W nfr fs = (Inr (length (cycle_items R srcs W fs)), fs', evs)"
proof -
  obtain st warn where ld: "load_state R fs = (st, warn)" by (cases "load_state R fs")
  obtain exc v where sl: "source_loop R W nfr st (remdups (get_seen st)) srcs
      \<lparr>total_new = 0, newly_seen = [], out = warn\<rparr> = (exc, v)"
    by (cases "source_loop R W nfr st (remdups (get_seen st)) srcs
      \<lparr>total_new = 0, newly_seen = [], out = warn\<rparr>")
  from source_loop_exc[OF sl] assms have exc: "exc = None" by simp
  from source_loop_vars[OF sl]
  have tn: "total_new v = length (cycle_items R srcs W fs)"
    by (simp_all add: cycle_items_def loaded_seen_def ld)
  from assms ld sl exc tn show ?thesis
    by (simp add: run_cycle_def Let_def)
qed

lemma set_attempt_keys_filter: "attempt_keys R (attempts evs) = attempt_keys R evs"
  by (induction R evs rule: attempt_keys.induct) (simp_all add: attempts_def)

lemma attempt_keys_attempt_events [simp]:
  "attempt_keys R (map (attempt_event W b) xs) = keys_of R xs"
  by (cases b; induction xs) (simp_all add: attempt_event_def keys_of_def)

lemma notifier_calls_attempts: "notifier_calls (attempts evs) = notifier_calls evs"
proof (induction evs)
  case Nil
  then show ?case by (simp add: notifier_calls_def attempts_def)
next
  case (Cons e evs)
  then show ?case by (cases e) (simp_all add: notifier_calls_def attempts_def)
qed

lemma notifier_calls_events:
  "notifier_calls (map (attempt_event W b) xs) = (if b then map (attempt_event W True) xs else [])"
  by (induction xs) (simp_all add: notifier_calls_def attempt_event_def)

lemma run_cycle_keys:
  assumes "run_cycle R srcs W nfr fs = (r, fs', evs)"
  shows "attempt_keys R evs = keys_of R (cycle_items R srcs W fs)"
  using run_cycle_attempts[OF assms] set_attempt_keys_filter[of R evs] by simp

lemma run_cycle_stored:
  assumes "run_cycle R srcs W nfr fs = (Inr n, fs', evs)"
  shows "\<exists>st' ks. stored_state R fs' = Some st' \<and> initialized st' = Some True \<and> seen st' = Some ks
           \<and> distinct ks \<and> set ks = loaded_seen R fs \<union> set (keys_of R (cycle_items R srcs W fs))"
proof -
  from run_cycle_Inr[OF assms] obtain st' where
    f: "fs' (STATE_FILE R) = Some (Doc st')" and i: "initialized st' = Some True"
    and k: "seen st' = Some (remdups (remdups (get_seen (fst (load_state R fs)))
                                    @ keys_of R (cycle_items R srcs W fs)))"
    by blast
  from f have "stored_state R fs' = Some st'" by (simp add: stored_state_def)
  with i k show ?thesis by (simp add: loaded_seen_def)
qed

lemma run_cycle_stored_seen:
  assumes "run_cycle R srcs W nfr fs = (Inr n, fs', evs)"
  shows "stored_seen R fs' = loaded_seen R fs \<union> set (keys_of R (cycle_items R srcs W fs))"
proof -
  from run_cycle_stored[OF assms] obtain st' ks where
    "stored_state R fs' = Some st'" "seen st' = Some ks"
    "set ks = loaded_seen R fs \<union> set (keys_of R (cycle_items R srcs W fs))"
    by blast
  then show ?thesis by (simp add: stored_seen_def get_seen_def)
qed

lemma run_cycle_grows:
  assumes "run_cycle R srcs W nfr fs = (r, fs', evs)"
  shows "loaded_seen R fs \<subseteq> stored_seen R fs'"
proof (cases r)
  case (Inl e)
  with assms have "run_cycle R srcs W nfr fs = (Inl e, fs', evs)" by simp
  then have "fs' (STATE_FILE R) = fs (STATE_FILE R)" by (rule run_cycle_Inl)
  then have "stored_seen R fs' = stored_seen R fs" by (rule stored_seen_cong)
  then show ?thesis by (simp only: loaded_seen_stored subset_refl)
next
  case (Inr n)
  with assms have "run_cycle R srcs W nfr fs = (Inr n, fs', evs)" by simp
  then have "stored_seen R fs' = loaded_seen R fs \<union> set (keys_of R (cycle_items R srcs W fs))"
    by (rule run_cycle_stored_seen)
  then show ?thesis by blast
qed

lemma candidates_cong:
  "\<forall>s\<in>set srcs. fetch W2 (src_url s) 2 = fetch W1 (src_url s) 2 \<Longrightarrow>
     candidates R W2 srcs = candidates R W1 srcs"
  by (induction srcs) (simp_all split: option.splits)

lemma run_cycle_logs_failure:
  assumes "run_cycle R srcs W nfr fs = (Inr n, fs', evs)"
    and "s \<in> set srcs" and "fetch W (src_url s) 2 = Inl e"
  shows "ErrorFetch (src_name s) e \<in> set evs"
proof -
  obtain st warn where ld: "load_state R fs = (st, warn)" by (cases "load_state R fs")
  obtain exc v where sl: "source_loop R W nfr st (remdups (get_seen st)) srcs
      \<lparr>total_new = 0, newly_seen = [], out = warn\<rparr> = (exc, v)"
    by (cases "source_loop R W nfr st (remdups (get_seen st)) srcs
      \<lparr>total_new = 0, newly_seen = [], out = warn\<rparr>")
  from assms(1) ld sl have exc: "exc = None"
    by (auto simp: run_cycle_def Let_def split: option.splits prod.splits)
  from source_loop_logs_failure[OF sl[unfolded exc]] assms(2,3)
  have "ErrorFetch (src_name s) e \<in> set (out v)" by blast
  moreover from assms(1) ld sl exc have "set (out v) \<subseteq> set evs"
    by (auto simp: run_cycle_def Let_def split: option.splits prod.splits)
  ultimately show ?thesis by blast
qed

lemma SOURCES_two: "\<exists>s0 s1. SOURCES = [s0, s1]"
  by (simp add: SOURCES_def)


subsection \<open>The loop of cycles\<close>









lemma not_completed_WarnCycle [simp]: "\<not> completed (evs @ [WarnCycle e])"
  by (simp add: completed_def)



subsection \<open>The concrete process, evaluated\<close>

lemma example_candidates:
  "candidates example_runtime example_world SOURCES = example_links"
  by (simp add: SOURCES_def example_runtime_def example_world_def fetch_def example_netloc_def
     extract_links_def example_findall_def page1_def page2_def normalize_link_def char_class_def
     numeral_2_eq_2 numeral_3_eq_3 example_links_def)

lemma example_first_run:
  "run_once example_runtime example_world False Map.empty =
     (Inr 3, fs_first,
      [InfoCandidates ''Idealista'' 2,
       DryRun ''Idealista'' ''https://www.idealista.it/it/immobile/12345/'',
       DryRun ''Idealista'' ''https://www.idealista.it/it/immobile/777/'',
       InfoCandidates ''Immobiliare.it'' 1,
       DryRun ''Immobiliare.it'' ''https://www.immobiliare.it/it/annunci/987/'',
       InfoDone 3])"
  by (simp add: run_once_def run_cycle_def load_state_def read_json_def get_seen_def get_initialized_def
     SOURCES_def example_runtime_def example_world_def fetch_def example_netloc_def
     extract_links_def example_findall_def page1_def page2_def normalize_link_def char_class_def
     numeral_2_eq_2 numeral_3_eq_3 sha_of_def example_sha_def fs_first_def example_keys_def
     save_state_def fs_replace_def fs_dump_def fs_open_w_def tmp_path_def)


lemma example_cycle_items:
  "cycle_items example_runtime SOURCES example_world Map.empty = example_links"
  by (simp add: cycle_items_def new_items_def example_candidates loaded_seen_def load_state_def
      read_json_def get_seen_def)

lemma example_keys_of: "keys_of example_runtime example_links = example_keys"
  by (simp add: keys_of_def example_links_def example_keys_def sha_of_def example_runtime_def
      example_sha_def)

lemma stored_seen_fs_first: "stored_seen example_runtime fs_first = set example_keys"
  by (simp add: stored_seen_def stored_state_def fs_first_def example_runtime_def get_seen_def)

lemma example_notify_run:
  "run_once example_runtime example_world True Map.empty =
     (Inr 3, fs_first,
      [InfoCandidates ''Idealista'' 2,
       Notify ''Idealista'' ''https://www.idealista.it/it/immobile/12345/'' Sent,
       Notify ''Idealista'' ''https://www.idealista.it/it/immobile/777/'' Sent,
       InfoCandidates ''Immobiliare.it'' 1,
       Notify ''Immobiliare.it'' ''https://www.immobiliare.it/it/annunci/987/'' Sent,
       InfoDone 3])"
  by (simp add: run_once_def run_cycle_def load_state_def read_json_def get_seen_def get_initialized_def
     SOURCES_def example_runtime_def example_world_def fetch_def example_netloc_def
     extract_links_def example_findall_def page1_def page2_def normalize_link_def char_class_def
     numeral_2_eq_2 numeral_3_eq_3 sha_of_def example_sha_def fs_first_def example_keys_def
     save_state_def fs_replace_def fs_dump_def fs_open_w_def tmp_path_def telegram_notify_def)

lemmas example_eval =
  run_once_def run_cycle_def load_state_def read_json_def get_seen_def get_initialized_def
  SOURCES_def example_runtime_def example_world_def fetch_def example_netloc_def
  extract_links_def example_findall_def page1_def page2_def normalize_link_def char_class_def
  numeral_2_eq_2 numeral_3_eq_3 sha_of_def example_sha_def fs_first_def example_keys_def
  save_state_def stopped_fs_def fs_replace_def fs_dump_def fs_open_w_def tmp_path_def telegram_notify_def





lemma down_fetches:
  "fetch down_world (src_url (SOURCES ! 0)) 2
     = Inl (FetchFailed (src_url (SOURCES ! 0)) (Some (HttpStatus 503)))"
  "fetch down_world (src_url (SOURCES ! 1)) 2 = Inr page2"
  by (simp_all add: down_world_def example_world_def fetch_def SOURCES_def numeral_2_eq_2 numeral_3_eq_3)

lemma example_netlocs:
  "url_netloc example_runtime (src_url (SOURCES ! 0)) = Some ''www.idealista.it''"
  "url_netloc example_runtime (src_url (SOURCES ! 1)) = Some ''www.immobiliare.it''"
  by (simp_all add: example_runtime_def example_netloc_def SOURCES_def)

lemma example_extract2:
  "extract_links example_runtime page2 (src_pattern (SOURCES ! 1)) ''www.immobiliare.it''
     = [''https://www.immobiliare.it/it/annunci/987/'']"
  by (simp add: extract_links_def example_runtime_def example_findall_def example_netloc_def
      normalize_link_def SOURCES_def char_class_def page2_def page1_def)


section \<open>The claims\<close>

subsection \<open>Link extractor\<close>

text \<open>
  Claim C8. Normalization truncates a match at the first \<^verbatim>\<open>#\<close> and then
  truncates the result at the first \<^verbatim>\<open>?utm_\<close>: \<open>split_head\<close> is the
  truncation at the first occurrence (\<open>cut_at_first\<close>), \<open>normalize_link\<close> applies
  it for \<^verbatim>\<open>#\<close> and then for \<^verbatim>\<open>?utm_\<close>, and every link the extractor
  returns is the normalization of a match. The two links of the specification
  normalize to the same text, hence to the same fingerprint, whatever the digest is.
\<close>

theorem normalize_cuts_fragment_then_tracking:
  "cut_at_first ''#'' link (split_head ''#'' link)
   \<and> cut_at_first ''?utm_'' (split_head ''#'' link) (normalize_link link)
   \<and> set (extract_links R t p d) \<subseteq> normalize_link ` set (re_findall R p (html_unescape R t))
   \<and> normalize_link ''https://example.com/listing/123?utm_source=x#top'' = ''https://example.com/listing/123''
   \<and> normalize_link ''https://example.com/listing/123'' = ''https://example.com/listing/123''
   \<and> sha_of R (normalize_link ''https://example.com/listing/123?utm_source=x#top'')
       = sha_of R (normalize_link ''https://example.com/listing/123'')"
proof -
  have a: "normalize_link ''https://example.com/listing/123?utm_source=x#top'' = ''https://example.com/listing/123''"
    by (simp add: normalize_link_def)
  have b: "normalize_link ''https://example.com/listing/123'' = ''https://example.com/listing/123''"
    by (simp add: normalize_link_def)
  have c: "set (extract_links R t p d) \<subseteq> normalize_link ` set (re_findall R p (html_unescape R t))"
    by (auto simp: set_extract_links)
  have d: "cut_at_first ''?utm_'' (split_head ''#'' link) (normalize_link link)"
    unfolding normalize_link_def by (rule split_head_cut)
  from a b c d split_head_cut[of "''#''" link] show ?thesis by simp
qed

theorem normalize_cuts_fragment_then_tracking_witness:
  "split_head ''#'' ''https://www.idealista.it/it/immobile/12345/?utm_source=x#top''
     = ''https://www.idealista.it/it/immobile/12345/?utm_source=x''
   \<and> normalize_link ''https://www.idealista.it/it/immobile/12345/?utm_source=x#top''
     = ''https://www.idealista.it/it/immobile/12345/''
   \<and> cut_at_first ''?utm_'' ''https://www.idealista.it/it/immobile/12345/?utm_source=x''
        ''https://www.idealista.it/it/immobile/12345/''
   \<and> extract_links example_runtime page1 (src_pattern (SOURCES ! 0)) ''www.idealista.it''
     = [''https://www.idealista.it/it/immobile/12345/'', ''https://www.idealista.it/it/immobile/777/'']"
proof -
  have a: "split_head ''#'' ''https://www.idealista.it/it/immobile/12345/?utm_source=x#top''
     = ''https://www.idealista.it/it/immobile/12345/?utm_source=x''"
    by simp
  have b: "normalize_link ''https://www.idealista.it/it/immobile/12345/?utm_source=x#top''
     = ''https://www.idealista.it/it/immobile/12345/''"
    by (simp add: normalize_link_def)
  have c: "extract_links example_runtime page1 (src_pattern (SOURCES ! 0)) ''www.idealista.it''
     = [''https://www.idealista.it/it/immobile/12345/'', ''https://www.idealista.it/it/immobile/777/'']"
    by (simp add: extract_links_def example_runtime_def example_findall_def example_netloc_def
        normalize_link_def)
  from normalize_cuts_fragment_then_tracking
         [of "''https://www.idealista.it/it/immobile/12345/?utm_source=x#top''"
             example_runtime page1 "src_pattern (SOURCES ! 0)" "''www.idealista.it''"]
  have "cut_at_first ''?utm_'' (split_head ''#'' ''https://www.idealista.it/it/immobile/12345/?utm_source=x#top'')
          (normalize_link ''https://www.idealista.it/it/immobile/12345/?utm_source=x#top'')"
    by blast
  with a b c show ?thesis by simp
qed

text \<open>
  Claim C7. A link is among the extracted ones exactly when it is the normalization of
  a match and \<^verbatim>\<open>urlparse\<close> gives it a network location that contains the domain
  as a contiguous run. A link whose address cannot be parsed has no network location
  and is left out; the extractor has no error result. With the domain
  \<^verbatim>\<open>example.com\<close> the hosts \<^verbatim>\<open>evil.example.com\<close> and
  \<^verbatim>\<open>notexample.com\<close> are kept and \<^verbatim>\<open>example.org\<close> is not.
\<close>

theorem domain_filter_keeps_substring_hosts:
  "(l \<in> set (extract_links R t p d)) =
     (\<exists>m. m \<in> set (re_findall R p (html_unescape R t)) \<and> l = normalize_link m
          \<and> (\<exists>h. url_netloc R l = Some h \<and> sublist d h))"
  by (auto simp: set_extract_links py_in_sublist)

theorem domain_filter_keeps_substring_hosts_witness:
  "extract_links listing_runtime example_page ''https?://[^ >]+/listing/[^ >]*'' ''example.com''
     = [''https://evil.example.com/listing/1'', ''https://notexample.com/listing/2'']
   \<and> map (url_netloc listing_runtime) example_matches
     = [Some ''evil.example.com'', Some ''notexample.com'', Some ''example.org'', None]
   \<and> sublist ''example.com'' ''evil.example.com''
   \<and> sublist ''example.com'' ''notexample.com''
   \<and> \<not> sublist ''example.com'' ''example.org''
   \<and> ''https://example.org/listing/3'' \<notin> set (extract_links listing_runtime example_page
          ''https?://[^ >]+/listing/[^ >]*'' ''example.com'')"
proof -
  have a: "extract_links listing_runtime example_page ''https?://[^ >]+/listing/[^ >]*'' ''example.com''
     = [''https://evil.example.com/listing/1'', ''https://notexample.com/listing/2'']"
    by (simp add: extract_links_def listing_runtime_def example_runtime_def example_matches_def
        example_netloc_def normalize_link_def)
  have b: "map (url_netloc listing_runtime) example_matches
     = [Some ''evil.example.com'', Some ''notexample.com'', Some ''example.org'', None]"
    by (simp add: listing_runtime_def example_runtime_def example_matches_def example_netloc_def)
  have c: "sublist ''example.com'' ''evil.example.com''" "sublist ''example.com'' ''notexample.com''"
     "\<not> sublist ''example.com'' ''example.org''"
    by (simp_all add: py_in_sublist[symmetric])
  have "''https://example.org/listing/3'' \<notin> set (extract_links listing_runtime example_page
          ''https?://[^ >]+/listing/[^ >]*'' ''example.com'')"
    using domain_filter_keeps_substring_hosts[of "''https://example.org/listing/3''" listing_runtime
        example_page "''https?://[^ >]+/listing/[^ >]*''" "''example.com''"] c(3)
    by (simp add: listing_runtime_def example_runtime_def example_netloc_def)
  with a b c show ?thesis by simp
qed

subsection \<open>Seen-set store\<close>

text \<open>
  Claim C9. \<open>load_state\<close> returns a state for every condition of the state file:
  the fresh state \<^verbatim>\<open>{"seen": []}\<close> when the file is absent (nothing printed),
  unreadable or unparseable (a warning printed), and the stored state only when the
  file parses. The fresh state has an empty seen list and reads as not initialized.
\<close>

theorem load_state_never_raises:
  "(fs (STATE_FILE R) = None \<longrightarrow>
      load_state R fs = (\<lparr>initialized = None, seen = Some []\<rparr>, []))
   \<and> (fs (STATE_FILE R) = Some (Unreadable e) \<longrightarrow>
      load_state R fs = (\<lparr>initialized = None, seen = Some []\<rparr>, [WarnState e]))
   \<and> (fs (STATE_FILE R) = Some (Garbage e) \<longrightarrow>
      load_state R fs = (\<lparr>initialized = None, seen = Some []\<rparr>, [WarnState e]))
   \<and> (fs (STATE_FILE R) = Some (Doc st) \<longrightarrow> load_state R fs = (st, []))
   \<and> (read_json R fs = Inl x \<longrightarrow>
      get_seen (fst (load_state R fs)) = [] \<and> \<not> get_initialized (fst (load_state R fs)))
   \<and> (fst (load_state R fs) = \<lparr>initialized = None, seen = Some []\<rparr>
      \<or> fs (STATE_FILE R) = Some (Doc (fst (load_state R fs))))"
  by (cases "fs (STATE_FILE R)"; cases "the (fs (STATE_FILE R))"; cases x)
     (simp_all add: load_state_def read_json_def get_seen_def get_initialized_def)

theorem load_state_never_raises_witness:
  "load_state example_runtime Map.empty = (\<lparr>initialized = None, seen = Some []\<rparr>, [])
   \<and> load_state example_runtime [''seen_listings.json'' \<mapsto> Unreadable ''Permission denied'']
       = (\<lparr>initialized = None, seen = Some []\<rparr>, [WarnState ''Permission denied''])
   \<and> load_state example_runtime [''seen_listings.json'' \<mapsto> Garbage ''Expecting value'']
       = (\<lparr>initialized = None, seen = Some []\<rparr>, [WarnState ''Expecting value''])
   \<and> load_state example_runtime old_fs = (old_state, [])
   \<and> \<not> get_initialized (fst (load_state example_runtime [''seen_listings.json'' \<mapsto> Garbage ''Expecting value'']))"
proof -
  have s: "STATE_FILE example_runtime = ''seen_listings.json''" by (simp add: example_runtime_def)
  have r: "read_json example_runtime [''seen_listings.json'' \<mapsto> Garbage ''Expecting value'']
         = Inl (OtherException ''Expecting value'')"
    by (simp add: read_json_def s)
  have a: "load_state example_runtime Map.empty = (\<lparr>initialized = None, seen = Some []\<rparr>, [])"
    using load_state_never_raises[where fs = Map.empty and R = example_runtime] by simp
  have b: "load_state example_runtime [''seen_listings.json'' \<mapsto> Unreadable ''Permission denied'']
       = (\<lparr>initialized = None, seen = Some []\<rparr>, [WarnState ''Permission denied''])"
    using load_state_never_raises[where fs = "[''seen_listings.json'' \<mapsto> Unreadable ''Permission denied'']"
         and R = example_runtime and e = "''Permission denied''"] by (simp add: s)
  have c: "load_state example_runtime [''seen_listings.json'' \<mapsto> Garbage ''Expecting value'']
       = (\<lparr>initialized = None, seen = Some []\<rparr>, [WarnState ''Expecting value''])"
    using load_state_never_raises[where fs = "[''seen_listings.json'' \<mapsto> Garbage ''Expecting value'']"
         and R = example_runtime and e = "''Expecting value''"] by (simp add: s)
  have d: "load_state example_runtime old_fs = (old_state, [])"
    using load_state_never_raises[where fs = old_fs and R = example_runtime and st = old_state] by (simp add: s old_fs_def)
  have e: "\<not> get_initialized (fst (load_state example_runtime [''seen_listings.json'' \<mapsto> Garbage ''Expecting value'']))"
    using load_state_never_raises[where fs = "[''seen_listings.json'' \<mapsto> Garbage ''Expecting value'']"
         and R = example_runtime and x = "OtherException ''Expecting value''"] r by simp
  show ?thesis by (intro conjI a b c d e)
qed

text \<open>
  Claim C6. \<open>save_state\<close> writes the whole state to the temporary path and then
  renames it over the state file. Wherever the write stops before the rename, by an
  exception or because the process stops, the state file is what it was and loads as
  before; a save that runs to its end leaves the state file holding exactly the new
  state; and at every step in between the state file holds the old content or the new.
\<close>

theorem save_state_temp_then_rename:
  "stopped_fs R st h fs (STATE_FILE R) = fs (STATE_FILE R)
   \<and> load_state R (stopped_fs R st h fs) = load_state R fs
   \<and> save_state R (Some (h, e)) st fs = (Some (OSError e), stopped_fs R st h fs)
   \<and> stopped_fs R st BeforeReplace fs (tmp_path R) = Some (Doc st)
   \<and> save_state R None st fs
       = (None, fs_replace (tmp_path R) (STATE_FILE R) (stopped_fs R st BeforeReplace fs))
   \<and> snd (save_state R None st fs) (STATE_FILE R) = Some (Doc st)
   \<and> load_state R (snd (save_state R None st fs)) = (st, [])
   \<and> (\<forall>f \<in> set (save_steps R st fs).
         f (STATE_FILE R) = fs (STATE_FILE R) \<or> f (STATE_FILE R) = Some (Doc st))"
proof -
  have a: "stopped_fs R st h fs (STATE_FILE R) = fs (STATE_FILE R)" for h by simp
  have b: "load_state R (stopped_fs R st h fs) = load_state R fs"
    by (simp add: load_state_def read_json_def)
  have c: "stopped_fs R st BeforeReplace fs (tmp_path R) = Some (Doc st)"
    by (simp add: stopped_fs_def fs_dump_def)
  have d: "save_state R None st fs
       = (None, fs_replace (tmp_path R) (STATE_FILE R) (stopped_fs R st BeforeReplace fs))"
    by (simp add: save_state_def stopped_fs_def)
  have e: "load_state R (snd (save_state R None st fs)) = (st, [])"
    by (simp add: load_state_def read_json_def)
  have f: "\<forall>f \<in> set (save_steps R st fs).
         f (STATE_FILE R) = fs (STATE_FILE R) \<or> f (STATE_FILE R) = Some (Doc st)"
    by (simp add: save_steps_def)
  have g: "snd (save_state R None st fs) (STATE_FILE R) = Some (Doc st)"
    by simp
  have i: "save_state R (Some (h, e)) st fs = (Some (OSError e), stopped_fs R st h fs)"
    by simp
  show ?thesis by (intro conjI a b c d e f g i)
qed

theorem save_state_temp_then_rename_witness:
  "load_state example_runtime
       (snd (save_state example_runtime (Some (DuringWrite, ''No space left on device''))
          \<lparr>initialized = Some True, seen = Some []\<rparr> old_fs)) = (old_state, [])
   \<and> load_state example_runtime (stopped_fs example_runtime \<lparr>initialized = Some True, seen = Some []\<rparr>
          BeforeReplace old_fs) = (old_state, [])
   \<and> load_state example_runtime
       (snd (save_state example_runtime None \<lparr>initialized = Some True, seen = Some []\<rparr> old_fs))
       = (\<lparr>initialized = Some True, seen = Some []\<rparr>, [])
   \<and> map (\<lambda>f. f ''seen_listings.json'')
        (save_steps example_runtime \<lparr>initialized = Some True, seen = Some []\<rparr> old_fs)
       = [Some (Doc old_state), Some (Doc old_state), Some (Doc old_state),
          Some (Doc \<lparr>initialized = Some True, seen = Some []\<rparr>)]
   \<and> map (\<lambda>f. f ''seen_listings.json.tmp'')
        (save_steps example_runtime \<lparr>initialized = Some True, seen = Some []\<rparr> old_fs)
       = [None, Some (Garbage ''truncated''), Some (Doc \<lparr>initialized = Some True, seen = Some []\<rparr>), None]"
proof -
  have s: "STATE_FILE example_runtime = ''seen_listings.json''" by (simp add: example_runtime_def)
  have l: "load_state example_runtime old_fs = (old_state, [])"
    by (simp add: load_state_def read_json_def s old_fs_def)
  have m: "map (\<lambda>f. f ''seen_listings.json.tmp'')
        (save_steps example_runtime \<lparr>initialized = Some True, seen = Some []\<rparr> old_fs)
       = [None, Some (Garbage ''truncated''), Some (Doc \<lparr>initialized = Some True, seen = Some []\<rparr>), None]"
    by (simp add: save_steps_def stopped_fs_def fs_open_w_def fs_dump_def tmp_path_def s old_fs_def)
  have n: "map (\<lambda>f. f ''seen_listings.json'')
        (save_steps example_runtime \<lparr>initialized = Some True, seen = Some []\<rparr> old_fs)
       = [Some (Doc old_state), Some (Doc old_state), Some (Doc old_state),
          Some (Doc \<lparr>initialized = Some True, seen = Some []\<rparr>)]"
    by (simp add: save_steps_def stopped_fs_def fs_open_w_def fs_dump_def tmp_path_def s old_fs_def)
  show ?thesis
    using save_state_temp_then_rename[where R = example_runtime
            and st = "\<lparr>initialized = Some True, seen = Some []\<rparr>"
            and h = DuringWrite and fs = old_fs and e = "''No space left on device''"]
          save_state_temp_then_rename[where R = example_runtime
            and st = "\<lparr>initialized = Some True, seen = Some []\<rparr>"
            and h = BeforeReplace and fs = old_fs and e = "''No space left on device''"]
          l m n
    by simp
qed

subsection \<open>Cycle orchestrator\<close>

text \<open>
  Claim C4. Whatever the loaded state, the answers of the sites and the fate of each
  notification, the seen set in the state file after a cycle includes the seen set the
  cycle loaded; and when the cycle runs to its end the stored set is the loaded set
  together with the fingerprint of every newly found link, which are the fingerprints
  of all links that were sent to the Notifier or logged as a dry run.
\<close>

theorem seen_set_only_grows:
  assumes "run_once R W notify_first_run fs = (r, fs', evs)"
  shows "loaded_seen R fs \<subseteq> stored_seen R fs'
       \<and> (\<forall>n. r = Inr n \<longrightarrow>
            stored_seen R fs' = loaded_seen R fs \<union> set (keys_of R (cycle_items R SOURCES W fs))
            \<and> set (attempt_keys R evs) \<subseteq> stored_seen R fs')"
proof -
  from assms have c: "run_cycle R SOURCES W notify_first_run fs = (r, fs', evs)"
    by (simp add: run_once_def)
  have k: "attempt_keys R evs = keys_of R (cycle_items R SOURCES W fs)"
    by (rule run_cycle_keys[OF c])
  have "stored_seen R fs' = loaded_seen R fs \<union> set (keys_of R (cycle_items R SOURCES W fs))
        \<and> set (attempt_keys R evs) \<subseteq> stored_seen R fs'" if "r = Inr n" for n
  proof -
    from c that have "run_cycle R SOURCES W notify_first_run fs = (Inr n, fs', evs)" by simp
    then have "stored_seen R fs' = loaded_seen R fs \<union> set (keys_of R (cycle_items R SOURCES W fs))"
      by (rule run_cycle_stored_seen)
    with k show ?thesis by auto
  qed
  with run_cycle_grows[OF c] show ?thesis by blast
qed

theorem seen_set_only_grows_witness:
  "fst (run_once example_runtime example_world False Map.empty) = Inr 3
   \<and> loaded_seen example_runtime Map.empty = {}
   \<and> stored_seen example_runtime (fst (snd (run_once example_runtime example_world False Map.empty)))
       = set example_keys
   \<and> attempt_keys example_runtime (snd (snd (run_once example_runtime example_world False Map.empty)))
       = example_keys"
proof -
  have l: "loaded_seen example_runtime Map.empty = {}"
    by (simp add: loaded_seen_def load_state_def read_json_def get_seen_def)
  from seen_set_only_grows[OF example_first_run]
  have "stored_seen example_runtime fs_first
          = loaded_seen example_runtime Map.empty
            \<union> set (keys_of example_runtime (cycle_items example_runtime SOURCES example_world Map.empty))"
    by blast
  then have "stored_seen example_runtime fs_first = set example_keys"
    by (simp add: l example_cycle_items example_keys_of)
  moreover have "attempt_keys example_runtime
       [InfoCandidates ''Idealista'' 2,
        DryRun ''Idealista'' ''https://www.idealista.it/it/immobile/12345/'',
        DryRun ''Idealista'' ''https://www.idealista.it/it/immobile/777/'',
        InfoCandidates ''Immobiliare.it'' 1,
        DryRun ''Immobiliare.it'' ''https://www.immobiliare.it/it/annunci/987/'',
        InfoDone 3] = example_keys"
    by (simp add: sha_of_def example_runtime_def example_sha_def example_keys_def)
  ultimately show ?thesis by (simp only: example_first_run l fst_conv snd_conv simp_thms)
qed

text \<open>
  Claim C10. After a completed cycle the list stored under \<^verbatim>\<open>"seen"\<close> has no
  repeated entry, and its elements are the loaded fingerprints and the newly collected
  ones.
\<close>

theorem persisted_seen_list_is_distinct:
  assumes "run_once R W notify_first_run fs = (Inr n, fs', evs)"
  shows "\<exists>st' ks. stored_state R fs' = Some st' \<and> seen st' = Some ks \<and> distinct ks
           \<and> set ks = loaded_seen R fs \<union> set (keys_of R (cycle_items R SOURCES W fs))"
proof -
  from assms have "run_cycle R SOURCES W notify_first_run fs = (Inr n, fs', evs)"
    by (simp add: run_once_def)
  from run_cycle_stored[OF this] show ?thesis by blast
qed

theorem persisted_seen_list_is_distinct_witness:
  "stored_state example_runtime fs_first = Some \<lparr>initialized = Some True, seen = Some example_keys\<rparr>
   \<and> distinct example_keys \<and> length example_keys = 3"
proof -
  have s: "stored_state example_runtime fs_first = Some \<lparr>initialized = Some True, seen = Some example_keys\<rparr>"
    by (simp add: stored_state_def fs_first_def example_runtime_def)
  from persisted_seen_list_is_distinct[OF example_first_run]
  obtain st' ks where "stored_state example_runtime fs_first = Some st'" "seen st' = Some ks" "distinct ks"
    by blast
  with s have "distinct example_keys" by simp
  with s show ?thesis by (simp add: example_keys_def)
qed

text \<open>
  Claim C3. In a cycle started with \<^verbatim>\<open>notify_first_run\<close> false on a state that
  is not initialized, the Notifier is never called and every previously-unseen link
  is logged as a dry run; when the cycle completes it returns the number of these
  links, their fingerprints are in the stored seen set and the stored state is
  initialized. Conversely, when \<^verbatim>\<open>notify_first_run\<close> is true or the state is
  initialized, the Notifier is called for every previously-unseen link, in order.
\<close>

theorem first_run_suppression:
  assumes "run_once R W notify_first_run fs = (r, fs', evs)"
  shows "(\<not> notify_first_run \<and> \<not> get_initialized (fst (load_state R fs)) \<longrightarrow>
            notifier_calls evs = []
            \<and> attempts evs = map (\<lambda>x. DryRun (fst x) (snd x)) (cycle_items R SOURCES W fs)
            \<and> (\<forall>n. r = Inr n \<longrightarrow>
                  n = length (cycle_items R SOURCES W fs)
                  \<and> set (keys_of R (cycle_items R SOURCES W fs)) \<subseteq> stored_seen R fs'
                  \<and> (\<exists>st'. stored_state R fs' = Some st' \<and> initialized st' = Some True)))
       \<and> (notify_first_run \<or> get_initialized (fst (load_state R fs)) \<longrightarrow>
            attempts evs = notifier_calls evs
            \<and> notifier_calls evs =
                map (\<lambda>x. Notify (fst x) (snd x) (telegram_notify W (message (fst x) (snd x))))
                  (cycle_items R SOURCES W fs))"
proof -
  let ?b = "notify_first_run \<or> get_initialized (fst (load_state R fs))"
  let ?items = "cycle_items R SOURCES W fs"
  from assms have c: "run_cycle R SOURCES W notify_first_run fs = (r, fs', evs)"
    by (simp add: run_once_def)
  have a: "attempts evs = map (attempt_event W ?b) ?items"
    by (rule run_cycle_attempts[OF c])
  have nc: "notifier_calls evs = (if ?b then map (attempt_event W True) ?items else [])"
    using notifier_calls_attempts[of evs] a by (simp add: notifier_calls_events)
  have dry: "map (attempt_event W False) ?items = map (\<lambda>x. DryRun (fst x) (snd x)) ?items"
    by (simp add: attempt_event_def)
  have send: "map (attempt_event W True) ?items
      = map (\<lambda>x. Notify (fst x) (snd x) (telegram_notify W (message (fst x) (snd x)))) ?items"
    by (simp add: attempt_event_def)
  have fin: "n = length ?items \<and> set (keys_of R ?items) \<subseteq> stored_seen R fs'
        \<and> (\<exists>st'. stored_state R fs' = Some st' \<and> initialized st' = Some True)"
    if "r = Inr n" for n
  proof -
    from c that have c': "run_cycle R SOURCES W notify_first_run fs = (Inr n, fs', evs)" by simp
    from run_cycle_Inr[OF c'] have "n = length ?items" by blast
    moreover from run_cycle_stored_seen[OF c'] have "set (keys_of R ?items) \<subseteq> stored_seen R fs'"
      by blast
    moreover from run_cycle_stored[OF c']
    have "\<exists>st'. stored_state R fs' = Some st' \<and> initialized st' = Some True" by blast
    ultimately show ?thesis by blast
  qed
  show ?thesis
  proof (cases ?b)
    case True
    with a nc send have "attempts evs = notifier_calls evs"
      and "notifier_calls evs =
             map (\<lambda>x. Notify (fst x) (snd x) (telegram_notify W (message (fst x) (snd x)))) ?items"
      by simp_all
    with True show ?thesis by blast
  next
    case False
    with a nc dry have "notifier_calls evs = []"
      and "attempts evs = map (\<lambda>x. DryRun (fst x) (snd x)) ?items"
      by simp_all
    with False fin show ?thesis by blast
  qed
qed

theorem first_run_suppression_witness:
  "fst (run_once example_runtime example_world False Map.empty) = Inr 3
   \<and> notifier_calls (snd (snd (run_once example_runtime example_world False Map.empty))) = []
   \<and> attempts (snd (snd (run_once example_runtime example_world False Map.empty)))
       = map (\<lambda>x. DryRun (fst x) (snd x)) example_links
   \<and> length example_links = 3
   \<and> stored_state example_runtime (fst (snd (run_once example_runtime example_world False Map.empty)))
       = Some \<lparr>initialized = Some True, seen = Some example_keys\<rparr>
   \<and> notifier_calls (snd (snd (run_once example_runtime example_world True Map.empty)))
       = map (\<lambda>x. Notify (fst x) (snd x) Sent) example_links"
proof -
  have g: "\<not> get_initialized (fst (load_state example_runtime Map.empty))"
    by (simp add: load_state_def read_json_def get_initialized_def)
  from first_run_suppression[OF example_first_run] g
  have a: "notifier_calls (snd (snd (run_once example_runtime example_world False Map.empty))) = []"
    and b: "attempts (snd (snd (run_once example_runtime example_world False Map.empty)))
       = map (\<lambda>x. DryRun (fst x) (snd x)) example_links"
    by (simp_all only: example_first_run example_cycle_items snd_conv simp_thms)
  have t: "telegram_notify example_world m = Sent" for m
    by (simp add: telegram_notify_def example_world_def)
  from first_run_suppression[OF example_notify_run]
  have c: "notifier_calls (snd (snd (run_once example_runtime example_world True Map.empty)))
       = map (\<lambda>x. Notify (fst x) (snd x) Sent) example_links"
    by (simp only: example_notify_run example_cycle_items snd_conv simp_thms t)
  have s: "stored_state example_runtime fs_first = Some \<lparr>initialized = Some True, seen = Some example_keys\<rparr>"
    by (simp add: stored_state_def fs_first_def example_runtime_def)
  have l: "length example_links = 3" by (simp add: example_links_def)
  show ?thesis
    by (intro conjI a b c l) (simp_all only: example_first_run fst_conv snd_conv s)
qed

text \<open>
  Claim C2. When a cycle has completed and every source answers the next cycle as it
  answered that one, the next cycle finds no previously-unseen link: it makes no
  notification attempt, and it returns 0 (its own state write permitting), because
  the fingerprint of every candidate link is in the seen set the first cycle stored.
\<close>

theorem second_run_finds_nothing:
  assumes "run_once R W1 nfr1 fs = (Inr n1, fs1, evs1)"
    and "\<forall>s\<in>set SOURCES. fetch W2 (src_url s) 2 = fetch W1 (src_url s) 2"
    and "run_once R W2 nfr2 fs1 = (r2, fs2, evs2)"
  shows "cycle_items R SOURCES W2 fs1 = []
       \<and> attempts evs2 = []
       \<and> (\<forall>n. r2 = Inr n \<longrightarrow> n = 0)
       \<and> (save_fault W2 = None \<longrightarrow> r2 = Inr 0)"
proof -
  from assms(1) have c1: "run_cycle R SOURCES W1 nfr1 fs = (Inr n1, fs1, evs1)"
    by (simp add: run_once_def)
  from assms(3) have c2: "run_cycle R SOURCES W2 nfr2 fs1 = (r2, fs2, evs2)"
    by (simp add: run_once_def)
  have st: "loaded_seen R fs1 = loaded_seen R fs \<union> set (keys_of R (cycle_items R SOURCES W1 fs))"
    using run_cycle_stored_seen[OF c1] by (simp add: loaded_seen_stored)
  have cand: "candidates R W2 SOURCES = candidates R W1 SOURCES"
    by (rule candidates_cong[OF assms(2)])
  have "sha_of R (snd x) \<in> loaded_seen R fs1" if "x \<in> set (candidates R W1 SOURCES)" for x
  proof (cases "sha_of R (snd x) \<in> loaded_seen R fs")
    case True
    with st show ?thesis by simp
  next
    case False
    with that have "x \<in> set (cycle_items R SOURCES W1 fs)"
      by (simp add: cycle_items_def new_items_def)
    then have "sha_of R (snd x) \<in> set (keys_of R (cycle_items R SOURCES W1 fs))"
      by (auto simp: keys_of_def)
    with st show ?thesis by simp
  qed
  then have items: "cycle_items R SOURCES W2 fs1 = []"
    by (simp add: cycle_items_def new_items_def cand filter_empty_conv)
  have att: "attempts evs2 = []"
    using run_cycle_attempts[OF c2] items by simp
  have ret: "n = 0" if "r2 = Inr n" for n
  proof -
    from c2 that have "run_cycle R SOURCES W2 nfr2 fs1 = (Inr n, fs2, evs2)" by simp
    from run_cycle_Inr[OF this] items show ?thesis by simp
  qed
  have tot: "r2 = Inr 0" if "save_fault W2 = None"
  proof -
    from run_cycle_Inr[OF c1] have "\<forall>s\<in>set SOURCES. url_netloc R (src_url s) \<noteq> None" by blast
    from run_cycle_total[OF that this, where nfr = nfr2 and fs = fs1] c2 items show ?thesis by auto
  qed
  from items att ret tot show ?thesis by blast
qed

theorem second_run_finds_nothing_witness:
  "fst (run_once example_runtime example_world False Map.empty) = Inr 3
   \<and> fst (run_once example_runtime example_world True fs_first) = Inr 0
   \<and> attempts (snd (snd (run_once example_runtime example_world True fs_first))) = []"
proof -
  have p: "run_once example_runtime example_world True fs_first
      = (fst (run_once example_runtime example_world True fs_first),
         fst (snd (run_once example_runtime example_world True fs_first)),
         snd (snd (run_once example_runtime example_world True fs_first)))"
    by simp
  have f: "\<forall>s\<in>set SOURCES. fetch example_world (src_url s) 2 = fetch example_world (src_url s) 2"
    by simp
  have sf: "save_fault example_world = None" by (simp add: example_world_def)
  from second_run_finds_nothing[OF example_first_run f p] sf
  have "fst (run_once example_runtime example_world True fs_first) = Inr 0"
    and "attempts (snd (snd (run_once example_runtime example_world True fs_first))) = []"
    by blast+
  then show ?thesis by (simp add: example_first_run)
qed

text \<open>
  Claim C5. When the fetch of one source fails after its retries and the fetch of the
  other succeeds, the failure is printed and the cycle goes on: it returns the number
  of previously-unseen links of the source that answered, attempts exactly these
  links, and stores their fingerprints with the loaded ones. The order of the two
  sources does not matter.
\<close>

theorem failed_source_is_skipped:
  assumes "a \<in> set SOURCES" and "b \<in> set SOURCES"
    and "fetch W (src_url a) 2 = Inl e" and "fetch W (src_url b) 2 = Inr t"
    and "url_netloc R (src_url a) = Some da" and "url_netloc R (src_url b) = Some db"
    and "save_fault W = None"
  shows "\<exists>fs' evs.
           run_once R W notify_first_run fs
             = (Inr (length (filter (\<lambda>l. sha_of R l \<notin> loaded_seen R fs)
                               (extract_links R t (src_pattern b) db))), fs', evs)
           \<and> ErrorFetch (src_name a) e \<in> set evs
           \<and> attempts evs =
               map (\<lambda>l. attempt_event W (notify_first_run \<or> get_initialized (fst (load_state R fs)))
                          (src_name b, l))
                 (filter (\<lambda>l. sha_of R l \<notin> loaded_seen R fs) (extract_links R t (src_pattern b) db))
           \<and> stored_seen R fs' =
               loaded_seen R fs \<union>
               sha_of R ` set (filter (\<lambda>l. sha_of R l \<notin> loaded_seen R fs)
                                (extract_links R t (src_pattern b) db))"
proof -
  let ?new = "filter (\<lambda>l. sha_of R l \<notin> loaded_seen R fs) (extract_links R t (src_pattern b) db)"
  from SOURCES_two obtain s0 s1 where S: "SOURCES = [s0, s1]" by blast
  from assms(3,4) have "a \<noteq> b" by auto
  moreover have "a = s0 \<or> a = s1" "b = s0 \<or> b = s1"
    using assms(1,2) unfolding S by simp_all
  ultimately have "[s0, s1] = [a, b] \<or> [s0, s1] = [b, a]" by auto
  then have ab: "SOURCES = [a, b] \<or> SOURCES = [b, a]" unfolding S .
  have c1: "candidates R W [a, b] = map (Pair (src_name b)) (extract_links R t (src_pattern b) db)"
    using assms(3-6) by simp
  have c2: "candidates R W [b, a] = map (Pair (src_name b)) (extract_links R t (src_pattern b) db)"
    using assms(3-6) by simp
  have cand: "candidates R W SOURCES = map (Pair (src_name b)) (extract_links R t (src_pattern b) db)"
  proof (rule disjE[OF ab])
    assume h: "SOURCES = [a, b]"
    show ?thesis unfolding h by (rule c1)
  next
    assume h: "SOURCES = [b, a]"
    show ?thesis unfolding h by (rule c2)
  qed
  have items: "cycle_items R SOURCES W fs = map (Pair (src_name b)) ?new"
    by (simp add: cycle_items_def new_items_def cand filter_map comp_def)
  have "\<forall>s\<in>set [a, b]. url_netloc R (src_url s) \<noteq> None"
    and "\<forall>s\<in>set [b, a]. url_netloc R (src_url s) \<noteq> None"
    using assms(5,6) by simp_all
  with ab have urls: "\<forall>s\<in>set SOURCES. url_netloc R (src_url s) \<noteq> None"
    by (elim disjE) (erule ssubst, assumption)+
  from run_cycle_total[OF assms(7) urls, where nfr = notify_first_run and fs = fs]
  obtain fs' evs where run: "run_cycle R SOURCES W notify_first_run fs
       = (Inr (length (cycle_items R SOURCES W fs)), fs', evs)"
    by blast
  have r1: "run_once R W notify_first_run fs = (Inr (length ?new), fs', evs)"
    using run by (simp add: run_once_def items)
  have r2: "ErrorFetch (src_name a) e \<in> set evs"
    by (rule run_cycle_logs_failure[OF run assms(1,3)])
  have r3: "attempts evs =
      map (\<lambda>l. attempt_event W (notify_first_run \<or> get_initialized (fst (load_state R fs)))
                 (src_name b, l)) ?new"
    using run_cycle_attempts[OF run] by (simp add: items comp_def)
  have r4: "stored_seen R fs' = loaded_seen R fs \<union> sha_of R ` set ?new"
    using run_cycle_stored_seen[OF run] by (simp add: items keys_of_def comp_def image_image)
  from r1 r2 r3 r4 show ?thesis by blast
qed

theorem failed_source_is_skipped_witness:
  "fst (run_once example_runtime down_world False Map.empty) = Inr 1
   \<and> ErrorFetch ''Idealista'' (FetchFailed (src_url (SOURCES ! 0)) (Some (HttpStatus 503)))
       \<in> set (snd (snd (run_once example_runtime down_world False Map.empty)))
   \<and> attempts (snd (snd (run_once example_runtime down_world False Map.empty)))
       = [DryRun ''Immobiliare.it'' ''https://www.immobiliare.it/it/annunci/987/'']
   \<and> stored_seen example_runtime (fst (snd (run_once example_runtime down_world False Map.empty)))
       = {''a630cea4a2079b44ae005e29291f53ea71b462c71683553d7164b1572a0e8f38''}"
proof -
  have m: "SOURCES ! 0 \<in> set SOURCES" "SOURCES ! 1 \<in> set SOURCES"
    by (simp_all add: SOURCES_def)
  have sf: "save_fault down_world = None" by (simp add: down_world_def example_world_def)
  have l: "loaded_seen example_runtime Map.empty = {}"
    by (simp add: loaded_seen_def load_state_def read_json_def get_seen_def)
  have g: "\<not> get_initialized (fst (load_state example_runtime Map.empty))"
    by (simp add: load_state_def read_json_def get_initialized_def)
  have n: "src_name (SOURCES ! 0) = ''Idealista''" "src_name (SOURCES ! 1) = ''Immobiliare.it''"
    by (simp_all add: SOURCES_def)
  have k: "sha_of example_runtime ''https://www.immobiliare.it/it/annunci/987/''
        = ''a630cea4a2079b44ae005e29291f53ea71b462c71683553d7164b1572a0e8f38''"
    by (simp add: sha_of_def example_runtime_def example_sha_def)
  from failed_source_is_skipped[OF m down_fetches example_netlocs sf,
      where notify_first_run = False and fs = Map.empty]
  obtain fs' evs where
    "run_once example_runtime down_world False Map.empty = (Inr 1, fs', evs)"
    "ErrorFetch ''Idealista'' (FetchFailed (src_url (SOURCES ! 0)) (Some (HttpStatus 503))) \<in> set evs"
    "attempts evs = [DryRun ''Immobiliare.it'' ''https://www.immobiliare.it/it/annunci/987/'']"
    "stored_seen example_runtime fs' = {''a630cea4a2079b44ae005e29291f53ea71b462c71683553d7164b1572a0e8f38''}"
    unfolding example_extract2 l n by (auto simp: attempt_event_def g k)
  then show ?thesis by simp
qed




text \<open>
  The set \<^verbatim>\<open>seen\<close> is not updated while a cycle runs: with two searches that
  return the same page, each link is attempted once for each of them.
\<close>

lemma same_link_from_two_sources_attempted_twice:
  "attempt_keys example_runtime
     (snd (snd (run_cycle example_runtime two_searches same_page_world True Map.empty)))
   = [''f402d4ca58e40505e32fac37b58d0b5dac7adc4d718624f620b0324668488a92'',
      ''9b5b77072af94fd003b0cfff57f6319226cc8928aca047c12f015c8670a1c179'',
      ''f402d4ca58e40505e32fac37b58d0b5dac7adc4d718624f620b0324668488a92'',
      ''9b5b77072af94fd003b0cfff57f6319226cc8928aca047c12f015c8670a1c179'']"
  by (simp add: example_eval two_searches_def same_page_world_def)

end
